theory Spec2Isabelle
  imports Main "HOL-Library.Word"
begin

section \<open>The device interface handle (include/device\_intrf.h)\<close>

text \<open>
  C \<open>int\<close> is a 32-bit two's complement integer, read with \<open>sint\<close>; \<open>uint8_t\<close> is a byte.
  A buffer pointer is modelled by the bytes it points to.
\<close>

type_synonym c_int = "32 word"
type_synonym byte = "8 word"

datatype DEVINTRF_EVT =
    DEVINTRF_EVT_RX_TIMEOUT
  | DEVINTRF_EVT_RX_DATA
  | DEVINTRF_EVT_RX_FIFO_FULL
  | DEVINTRF_EVT_TX_TIMEOUT
  | DEVINTRF_EVT_TX_READY
  | DEVINTRF_EVT_TX_FIFO_FULL
  | DEVINTRF_EVT_STATECHG

text \<open>
  The data fields of \<open>struct __device_intrf\<close>. \<open>pDevData\<close> is the private state of the
  implementation, of type \<open>'s\<close>. \<open>EvtCB\<close> is \<open>None\<close> for a NULL callback; no function
  of the header calls it.
\<close>

record 's DEVINTRF =
  pDevData :: 's
  IntPrio :: c_int
  EvtCB :: "(DEVINTRF_EVT \<Rightarrow> byte list \<Rightarrow> c_int \<Rightarrow> c_int) option"
  Busy :: bool
  MaxRetry :: c_int
  EnCnt :: c_int

text \<open>
  The function slots of \<open>struct __device_intrf\<close>. Every slot receives the handle and may
  change any of its data fields, so a slot is a function from the handle's fields to its
  result and the fields it leaves behind. \<open>RxData\<close> returns the byte count together with
  the new contents of the buffer. Only \<open>Reset\<close> is tested against NULL by the header, so
  only it is an \<open>option\<close>. The slots are filled once when the driver is initialised; no
  function of the header assigns them, so they are kept apart from the mutable fields.
\<close>

record 's DEVINTRF_SLOTS =
  Disable :: "'s DEVINTRF \<Rightarrow> 's DEVINTRF"
  Enable :: "'s DEVINTRF \<Rightarrow> 's DEVINTRF"
  GetRate :: "'s DEVINTRF \<Rightarrow> c_int \<times> 's DEVINTRF"
  SetRate :: "'s DEVINTRF \<Rightarrow> c_int \<Rightarrow> c_int \<times> 's DEVINTRF"
  StartRx :: "'s DEVINTRF \<Rightarrow> c_int \<Rightarrow> bool \<times> 's DEVINTRF"
  RxData :: "'s DEVINTRF \<Rightarrow> byte list \<Rightarrow> c_int \<Rightarrow> (c_int \<times> byte list) \<times> 's DEVINTRF"
  StopRx :: "'s DEVINTRF \<Rightarrow> 's DEVINTRF"
  StartTx :: "'s DEVINTRF \<Rightarrow> c_int \<Rightarrow> bool \<times> 's DEVINTRF"
  TxData :: "'s DEVINTRF \<Rightarrow> byte list \<Rightarrow> c_int \<Rightarrow> c_int \<times> 's DEVINTRF"
  StopTx :: "'s DEVINTRF \<Rightarrow> 's DEVINTRF"
  Reset :: "('s DEVINTRF \<Rightarrow> 's DEVINTRF) option"

subsection \<open>Calls into the implementation\<close>

text \<open>
  To speak about which slots a wrapper invokes, and in which order, the handle is paired
  with the list of slot invocations made so far. Each \<open>slot_\<close> function below is one
  indirect call \<open>pDev->Slot(pDev, ...)\<close>: it runs the slot on the handle and appends the
  call to the list.
\<close>

datatype slot_call =
    CallDisable
  | CallEnable
  | CallGetRate
  | CallSetRate c_int
  | CallStartRx c_int
  | CallRxData "byte list" c_int
  | CallStopRx
  | CallStartTx c_int
  | CallTxData "byte list" c_int
  | CallStopTx
  | CallReset

record 's world =
  dev :: "'s DEVINTRF"
  calls :: "slot_call list"

definition slot_Disable :: "'s DEVINTRF_SLOTS \<Rightarrow> 's world \<Rightarrow> 's world" where
  "slot_Disable ops w = \<lparr>dev = Disable ops (dev w), calls = calls w @ [CallDisable]\<rparr>"

definition slot_Enable :: "'s DEVINTRF_SLOTS \<Rightarrow> 's world \<Rightarrow> 's world" where
  "slot_Enable ops w = \<lparr>dev = Enable ops (dev w), calls = calls w @ [CallEnable]\<rparr>"

definition slot_GetRate :: "'s DEVINTRF_SLOTS \<Rightarrow> 's world \<Rightarrow> c_int \<times> 's world" where
  "slot_GetRate ops w =
     (let (r, d) = GetRate ops (dev w)
      in (r, \<lparr>dev = d, calls = calls w @ [CallGetRate]\<rparr>))"

definition slot_SetRate :: "'s DEVINTRF_SLOTS \<Rightarrow> 's world \<Rightarrow> c_int \<Rightarrow> c_int \<times> 's world" where
  "slot_SetRate ops w Rate =
     (let (r, d) = SetRate ops (dev w) Rate
      in (r, \<lparr>dev = d, calls = calls w @ [CallSetRate Rate]\<rparr>))"

definition slot_StartRx :: "'s DEVINTRF_SLOTS \<Rightarrow> 's world \<Rightarrow> c_int \<Rightarrow> bool \<times> 's world" where
  "slot_StartRx ops w DevAddr =
     (let (r, d) = StartRx ops (dev w) DevAddr
      in (r, \<lparr>dev = d, calls = calls w @ [CallStartRx DevAddr]\<rparr>))"

definition slot_RxData ::
  "'s DEVINTRF_SLOTS \<Rightarrow> 's world \<Rightarrow> byte list \<Rightarrow> c_int \<Rightarrow> (c_int \<times> byte list) \<times> 's world" where
  "slot_RxData ops w pBuff BuffLen =
     (let (r, d) = RxData ops (dev w) pBuff BuffLen
      in (r, \<lparr>dev = d, calls = calls w @ [CallRxData pBuff BuffLen]\<rparr>))"

definition slot_StopRx :: "'s DEVINTRF_SLOTS \<Rightarrow> 's world \<Rightarrow> 's world" where
  "slot_StopRx ops w = \<lparr>dev = StopRx ops (dev w), calls = calls w @ [CallStopRx]\<rparr>"

definition slot_StartTx :: "'s DEVINTRF_SLOTS \<Rightarrow> 's world \<Rightarrow> c_int \<Rightarrow> bool \<times> 's world" where
  "slot_StartTx ops w DevAddr =
     (let (r, d) = StartTx ops (dev w) DevAddr
      in (r, \<lparr>dev = d, calls = calls w @ [CallStartTx DevAddr]\<rparr>))"

definition slot_TxData ::
  "'s DEVINTRF_SLOTS \<Rightarrow> 's world \<Rightarrow> byte list \<Rightarrow> c_int \<Rightarrow> c_int \<times> 's world" where
  "slot_TxData ops w pData DataLen =
     (let (r, d) = TxData ops (dev w) pData DataLen
      in (r, \<lparr>dev = d, calls = calls w @ [CallTxData pData DataLen]\<rparr>))"

definition slot_StopTx :: "'s DEVINTRF_SLOTS \<Rightarrow> 's world \<Rightarrow> 's world" where
  "slot_StopTx ops w = \<lparr>dev = StopTx ops (dev w), calls = calls w @ [CallStopTx]\<rparr>"

definition slot_Reset :: "('s DEVINTRF \<Rightarrow> 's DEVINTRF) \<Rightarrow> 's world \<Rightarrow> 's world" where
  "slot_Reset f w = \<lparr>dev = f (dev w), calls = calls w @ [CallReset]\<rparr>"

subsection \<open>The atomic primitives\<close>

text \<open>
  Modelled from the spec: \<open>atomic.h\<close>, which declares \<open>AtomicInc\<close>, \<open>AtomicDec\<close>,
  \<open>AtomicTestAndSet\<close> and \<open>AtomicClear\<close>, is not among the sources. The spec gives their
  meaning: Enable invokes the implementation when the pre-increment count was 0, and the
  header compares the result of \<open>AtomicInc\<close> with 1, so \<open>AtomicInc\<close> returns the
  incremented value; Disable invokes the implementation when the post-decrement count is
  below 1, so \<open>AtomicDec\<close> returns the decremented value; the busy flag is guarded by an
  atomic test-and-set, which sets the flag and returns the value it had; \<open>AtomicClear\<close>
  resets the flag. Each returns its result (where it has one) and the new value of the
  variable. The counter is a C \<open>int\<close>: it wraps around at 32 bits.
\<close>

definition AtomicInc :: "c_int \<Rightarrow> c_int \<times> c_int" where
  "AtomicInc v = (v + 1, v + 1)"

definition AtomicDec :: "c_int \<Rightarrow> c_int \<times> c_int" where
  "AtomicDec v = (v - 1, v - 1)"

definition AtomicTestAndSet :: "bool \<Rightarrow> bool \<times> bool" where
  "AtomicTestAndSet b = (b, True)"

definition AtomicClear :: "bool \<Rightarrow> bool" where
  "AtomicClear b = False"

subsection \<open>The inline wrappers\<close>

definition DeviceIntrfDisable :: "'s DEVINTRF_SLOTS \<Rightarrow> 's world \<Rightarrow> 's world" where
  "DeviceIntrfDisable ops w =
     (let (r, c) = AtomicDec (EnCnt (dev w));
          w1 = w\<lparr>dev := (dev w)\<lparr>EnCnt := c\<rparr>\<rparr>
      in if sint r < 1 then slot_Disable ops w1 else w1)"

definition DeviceIntrfEnable :: "'s DEVINTRF_SLOTS \<Rightarrow> 's world \<Rightarrow> 's world" where
  "DeviceIntrfEnable ops w =
     (let (r, c) = AtomicInc (EnCnt (dev w));
          w1 = w\<lparr>dev := (dev w)\<lparr>EnCnt := c\<rparr>\<rparr>
      in if r = 1 then slot_Enable ops w1 else w1)"

definition DeviceIntrfGetRate :: "'s DEVINTRF_SLOTS \<Rightarrow> 's world \<Rightarrow> c_int \<times> 's world" where
  "DeviceIntrfGetRate ops w = slot_GetRate ops w"

definition DeviceIntrfSetRate :: "'s DEVINTRF_SLOTS \<Rightarrow> 's world \<Rightarrow> c_int \<Rightarrow> c_int \<times> 's world" where
  "DeviceIntrfSetRate ops w Rate = slot_SetRate ops w Rate"

definition DeviceIntrfStartRx :: "'s DEVINTRF_SLOTS \<Rightarrow> 's world \<Rightarrow> c_int \<Rightarrow> bool \<times> 's world" where
  "DeviceIntrfStartRx ops w DevAddr =
     (let (was, b) = AtomicTestAndSet (Busy (dev w));
          w1 = w\<lparr>dev := (dev w)\<lparr>Busy := b\<rparr>\<rparr>
      in if was then (False, w1)
         else
           let (retval, w2) = slot_StartRx ops w1 DevAddr
           in if retval = False
              then (retval, w2\<lparr>dev := (dev w2)\<lparr>Busy := AtomicClear (Busy (dev w2))\<rparr>\<rparr>)
              else (retval, w2))"

definition DeviceIntrfRxData ::
  "'s DEVINTRF_SLOTS \<Rightarrow> 's world \<Rightarrow> byte list \<Rightarrow> c_int \<Rightarrow> (c_int \<times> byte list) \<times> 's world" where
  "DeviceIntrfRxData ops w pBuff BuffLen = slot_RxData ops w pBuff BuffLen"

definition DeviceIntrfStopRx :: "'s DEVINTRF_SLOTS \<Rightarrow> 's world \<Rightarrow> 's world" where
  "DeviceIntrfStopRx ops w =
     (let w1 = slot_StopRx ops w
      in w1\<lparr>dev := (dev w1)\<lparr>Busy := AtomicClear (Busy (dev w1))\<rparr>\<rparr>)"

definition DeviceIntrfStartTx :: "'s DEVINTRF_SLOTS \<Rightarrow> 's world \<Rightarrow> c_int \<Rightarrow> bool \<times> 's world" where
  "DeviceIntrfStartTx ops w DevAddr =
     (let (was, b) = AtomicTestAndSet (Busy (dev w));
          w1 = w\<lparr>dev := (dev w)\<lparr>Busy := b\<rparr>\<rparr>
      in if was then (False, w1)
         else
           let (retval, w2) = slot_StartTx ops w1 DevAddr
           in if retval = False
              then (retval, w2\<lparr>dev := (dev w2)\<lparr>Busy := AtomicClear (Busy (dev w2))\<rparr>\<rparr>)
              else (retval, w2))"

definition DeviceIntrfTxData ::
  "'s DEVINTRF_SLOTS \<Rightarrow> 's world \<Rightarrow> byte list \<Rightarrow> c_int \<Rightarrow> c_int \<times> 's world" where
  "DeviceIntrfTxData ops w pBuff BuffLen = slot_TxData ops w pBuff BuffLen"

definition DeviceIntrfStopTx :: "'s DEVINTRF_SLOTS \<Rightarrow> 's world \<Rightarrow> 's world" where
  "DeviceIntrfStopTx ops w =
     (let w1 = slot_StopTx ops w
      in w1\<lparr>dev := (dev w1)\<lparr>Busy := AtomicClear (Busy (dev w1))\<rparr>\<rparr>)"

definition DeviceIntrfReset :: "'s DEVINTRF_SLOTS \<Rightarrow> 's world \<Rightarrow> 's world" where
  "DeviceIntrfReset ops w =
     (case Reset ops of
        None \<Rightarrow> w
      | Some f \<Rightarrow> slot_Reset f w)"

subsection \<open>The composite transfers\<close>

text \<open>
  Modelled from the spec: \<open>DeviceIntrfRx\<close>, \<open>DeviceIntrfTx\<close>, \<open>DeviceIntrfRead\<close> and
  \<open>DeviceIntrfWrite\<close> are declared in the header, but the file that defines them is not
  among the sources. The spec describes \<open>Rx\<close> and \<open>Tx\<close> as sequencing
  Start, Data, Stop, returning 0 without data or stop phase when Start fails, and
  \<open>Read\<close> and \<open>Write\<close> as sending an address/command phase and then performing the data
  phase; the header documents the result of \<open>Write\<close> as the bytes of data sent, not
  counting the address/command. The spec does not name the bracket of \<open>Read\<close>: here it
  is opened for the send of the address/command and closed after the receive.
\<close>

definition DeviceIntrfRx ::
  "'s DEVINTRF_SLOTS \<Rightarrow> 's world \<Rightarrow> c_int \<Rightarrow> byte list \<Rightarrow> c_int \<Rightarrow> (c_int \<times> byte list) \<times> 's world" where
  "DeviceIntrfRx ops w DevAddr pBuff BuffLen =
     (let (ok, w1) = DeviceIntrfStartRx ops w DevAddr
      in if ok
         then
           let (r, w2) = DeviceIntrfRxData ops w1 pBuff BuffLen;
               w3 = DeviceIntrfStopRx ops w2
           in (r, w3)
         else ((0, pBuff), w1))"

definition DeviceIntrfTx ::
  "'s DEVINTRF_SLOTS \<Rightarrow> 's world \<Rightarrow> c_int \<Rightarrow> byte list \<Rightarrow> c_int \<Rightarrow> c_int \<times> 's world" where
  "DeviceIntrfTx ops w DevAddr pData DataLen =
     (let (ok, w1) = DeviceIntrfStartTx ops w DevAddr
      in if ok
         then
           let (n, w2) = DeviceIntrfTxData ops w1 pData DataLen;
               w3 = DeviceIntrfStopTx ops w2
           in (n, w3)
         else (0, w1))"

definition DeviceIntrfRead ::
  "'s DEVINTRF_SLOTS \<Rightarrow> 's world \<Rightarrow> c_int \<Rightarrow> byte list \<Rightarrow> c_int \<Rightarrow> byte list \<Rightarrow> c_int
     \<Rightarrow> (c_int \<times> byte list) \<times> 's world" where
  "DeviceIntrfRead ops w DevAddr pAdCmd AdCmdLen pRxBuff RxLen =
     (let (ok, w1) = DeviceIntrfStartTx ops w DevAddr
      in if ok
         then
           let (m, w2) = DeviceIntrfTxData ops w1 pAdCmd AdCmdLen;
               (r, w3) = DeviceIntrfRxData ops w2 pRxBuff RxLen;
               w4 = DeviceIntrfStopRx ops w3
           in (r, w4)
         else ((0, pRxBuff), w1))"

definition DeviceIntrfWrite ::
  "'s DEVINTRF_SLOTS \<Rightarrow> 's world \<Rightarrow> c_int \<Rightarrow> byte list \<Rightarrow> c_int \<Rightarrow> byte list \<Rightarrow> c_int
     \<Rightarrow> c_int \<times> 's world" where
  "DeviceIntrfWrite ops w DevAddr pAdCmd AdCmdLen pData DataLen =
     (let (ok, w1) = DeviceIntrfStartTx ops w DevAddr
      in if ok
         then
           let (m, w2) = DeviceIntrfTxData ops w1 pAdCmd AdCmdLen;
               (n, w3) = DeviceIntrfTxData ops w2 pData DataLen;
               w4 = DeviceIntrfStopTx ops w3
           in (n, w4)
         else (0, w1))"

subsection \<open>Rate negotiation of an implementation\<close>

text \<open>
  Modelled from the spec: the transports that fill the \<open>SetRate\<close> and \<open>GetRate\<close> slots
  are not among the sources. The spec says of them that set-rate clamps to the nearest
  achievable rate and returns the actual rate applied, and that get-rate returns the
  current transfer frequency. The private state of such a transport holds the rates its
  hardware can produce and the rate in force; with no achievable rate at all, set-rate
  keeps the rate in force.
\<close>

record rate_impl =
  achievable :: "c_int list"
  current :: c_int

fun nearest_rate :: "c_int \<Rightarrow> c_int list \<Rightarrow> c_int \<Rightarrow> c_int" where
  "nearest_rate best [] req = best"
| "nearest_rate best (r # rs) req =
     nearest_rate (if \<bar>sint r - sint req\<bar> < \<bar>sint best - sint req\<bar> then r else best) rs req"

definition impl_SetRate :: "rate_impl DEVINTRF \<Rightarrow> c_int \<Rightarrow> c_int \<times> rate_impl DEVINTRF" where
  "impl_SetRate d Rate =
     (case achievable (pDevData d) of
        [] \<Rightarrow> (current (pDevData d), d)
      | r # rs \<Rightarrow>
          (let actual = nearest_rate r rs Rate
           in (actual, d\<lparr>pDevData := (pDevData d)\<lparr>current := actual\<rparr>\<rparr>)))"

definition impl_GetRate :: "rate_impl DEVINTRF \<Rightarrow> c_int \<times> rate_impl DEVINTRF" where
  "impl_GetRate d = (current (pDevData d), d)"

subsection \<open>Sequences of calls and what they are judged by\<close>

text \<open>The initial state of a handle: not busy, enable count 0, no slot invoked yet.\<close>

definition init_world :: "'s \<Rightarrow> 's world" where
  "init_world p =
     \<lparr>dev = \<lparr>pDevData = p, IntPrio = 0, EvtCB = None, Busy = False, MaxRetry = 0, EnCnt = 0\<rparr>,
      calls = []\<rparr>"

text \<open>The slot invocations made from world \<open>w\<close> on, seen from a later world \<open>w'\<close>.\<close>

definition new_calls :: "'s world \<Rightarrow> 's world \<Rightarrow> slot_call list" where
  "new_calls w w' = drop (length (calls w)) (calls w')"

fun is_transfer :: "slot_call \<Rightarrow> bool" where
  "is_transfer (CallRxData b n) = True"
| "is_transfer (CallTxData b n) = True"
| "is_transfer c = False"

fun is_stop :: "slot_call \<Rightarrow> bool" where
  "is_stop CallStopRx = True"
| "is_stop CallStopTx = True"
| "is_stop c = False"

text \<open>A sequence of Start calls on one handle, with no Stop in between.\<close>

datatype start_call = StartRxCall c_int | StartTxCall c_int

fun do_start :: "'s DEVINTRF_SLOTS \<Rightarrow> 's world \<Rightarrow> start_call \<Rightarrow> bool \<times> 's world" where
  "do_start ops w (StartRxCall a) = DeviceIntrfStartRx ops w a"
| "do_start ops w (StartTxCall a) = DeviceIntrfStartTx ops w a"

fun run_starts :: "'s DEVINTRF_SLOTS \<Rightarrow> 's world \<Rightarrow> start_call list \<Rightarrow> bool list \<times> 's world" where
  "run_starts ops w [] = ([], w)"
| "run_starts ops w (c # cs) =
     (let (r, w1) = do_start ops w c;
          (rs, w2) = run_starts ops w1 cs
      in (r # rs, w2))"

text \<open>A sequence of Enable and Disable calls on one handle.\<close>

datatype power_call = EnableCall | DisableCall

fun do_power :: "'s DEVINTRF_SLOTS \<Rightarrow> 's world \<Rightarrow> power_call \<Rightarrow> 's world" where
  "do_power ops w EnableCall = DeviceIntrfEnable ops w"
| "do_power ops w DisableCall = DeviceIntrfDisable ops w"

definition run_power :: "'s DEVINTRF_SLOTS \<Rightarrow> 's world \<Rightarrow> power_call list \<Rightarrow> 's world" where
  "run_power ops w cs = foldl (do_power ops) w cs"

text \<open>
  The power state of the hardware is what the implementation was last told: on after its
  \<open>Enable\<close> routine ran, off after its \<open>Disable\<close> routine ran, off before either.
\<close>

fun powered :: "bool \<Rightarrow> slot_call list \<Rightarrow> bool" where
  "powered p [] = p"
| "powered p (CallEnable # cs) = powered True cs"
| "powered p (CallDisable # cs) = powered False cs"
| "powered p (c # cs) = powered p cs"

definition hw_enabled :: "slot_call list \<Rightarrow> bool" where
  "hw_enabled cs = powered False cs"

text \<open>
  What the spec asks of every implementation (section 5): the busy flag and the enable
  count are updated through the atomic primitives only, so the routines in the slots
  leave them as they find them.
\<close>

definition power_keeps_count :: "'s DEVINTRF_SLOTS \<Rightarrow> bool" where
  "power_keeps_count ops \<longleftrightarrow>
     (\<forall>d. EnCnt (Enable ops d) = EnCnt d \<and> EnCnt (Disable ops d) = EnCnt d)"

definition start_keeps_busy :: "'s DEVINTRF_SLOTS \<Rightarrow> bool" where
  "start_keeps_busy ops \<longleftrightarrow>
     (\<forall>d a. Busy (snd (StartRx ops d a)) = Busy d \<and> Busy (snd (StartTx ops d a)) = Busy d)"

definition start_succeeds :: "'s DEVINTRF_SLOTS \<Rightarrow> bool" where
  "start_succeeds ops \<longleftrightarrow> (\<forall>d a. fst (StartRx ops d a) \<and> fst (StartTx ops d a))"

subsection \<open>Sample transports\<close>

text \<open>
  A transport with nothing to do: every routine leaves the handle alone, the start
  routines succeed and the data routines transfer all that is asked. It has no reset
  routine.
\<close>

definition idle_transport :: "unit DEVINTRF_SLOTS" where
  "idle_transport =
     \<lparr>Disable = (\<lambda>d. d), Enable = (\<lambda>d. d),
      GetRate = (\<lambda>d. (0, d)), SetRate = (\<lambda>d r. (r, d)),
      StartRx = (\<lambda>d a. (True, d)), RxData = (\<lambda>d b n. ((n, b), d)), StopRx = (\<lambda>d. d),
      StartTx = (\<lambda>d a. (True, d)), TxData = (\<lambda>d b n. (n, d)), StopTx = (\<lambda>d. d),
      Reset = None\<rparr>"

text \<open>A transport whose device never answers: both start routines fail.\<close>

definition nak_transport :: "unit DEVINTRF_SLOTS" where
  "nak_transport =
     idle_transport\<lparr>StartRx := (\<lambda>d a. (False, d)), StartTx := (\<lambda>d a. (False, d))\<rparr>"

text \<open>A transport that moves at most 10 bytes per data call, and has a reset routine.\<close>

definition short_transport :: "unit DEVINTRF_SLOTS" where
  "short_transport =
     idle_transport
       \<lparr>RxData := (\<lambda>d b n. ((if sint n \<le> 10 then n else 10, b), d)),
        TxData := (\<lambda>d b n. (if sint n \<le> 10 then n else 10, d)),
        Reset := Some (\<lambda>d. d)\<rparr>"

text \<open>The rate negotiation above in the slots of the idle transport's shape.\<close>

definition rate_transport :: "rate_impl DEVINTRF_SLOTS" where
  "rate_transport =
     \<lparr>Disable = (\<lambda>d. d), Enable = (\<lambda>d. d),
      GetRate = impl_GetRate, SetRate = impl_SetRate,
      StartRx = (\<lambda>d a. (True, d)), RxData = (\<lambda>d b n. ((n, b), d)), StopRx = (\<lambda>d. d),
      StartTx = (\<lambda>d a. (True, d)), TxData = (\<lambda>d b n. (n, d)), StopTx = (\<lambda>d. d),
      Reset = None\<rparr>"

text \<open>The number of Enable calls of a sequence less the number of its Disable calls.\<close>

definition balance :: "power_call list \<Rightarrow> int" where
  "balance cs = int (count_list cs EnableCall) - int (count_list cs DisableCall)"

section \<open>The busy flag\<close>

lemmas atomic_defs = AtomicInc_def AtomicDec_def AtomicTestAndSet_def AtomicClear_def

lemma StartRx_busy: "Busy (dev w) \<Longrightarrow> DeviceIntrfStartRx ops w a = (False, w)"
  by (simp add: DeviceIntrfStartRx_def atomic_defs)

lemma StartTx_busy: "Busy (dev w) \<Longrightarrow> DeviceIntrfStartTx ops w a = (False, w)"
  by (simp add: DeviceIntrfStartTx_def atomic_defs)

lemma StartRx_free:
  "\<not> Busy (dev w) \<Longrightarrow>
   DeviceIntrfStartRx ops w a =
     (let r = StartRx ops ((dev w)\<lparr>Busy := True\<rparr>) a
      in (fst r, \<lparr>dev = (if fst r then snd r else (snd r)\<lparr>Busy := False\<rparr>),
                 calls = calls w @ [CallStartRx a]\<rparr>))"
  by (simp add: DeviceIntrfStartRx_def slot_StartRx_def atomic_defs Let_def split: prod.splits)

lemma StartTx_free:
  "\<not> Busy (dev w) \<Longrightarrow>
   DeviceIntrfStartTx ops w a =
     (let r = StartTx ops ((dev w)\<lparr>Busy := True\<rparr>) a
      in (fst r, \<lparr>dev = (if fst r then snd r else (snd r)\<lparr>Busy := False\<rparr>),
                 calls = calls w @ [CallStartTx a]\<rparr>))"
  by (simp add: DeviceIntrfStartTx_def slot_StartTx_def atomic_defs Let_def split: prod.splits)

lemma StopRx_eq:
  "DeviceIntrfStopRx ops w = \<lparr>dev = (StopRx ops (dev w))\<lparr>Busy := False\<rparr>, calls = calls w @ [CallStopRx]\<rparr>"
  by (simp add: DeviceIntrfStopRx_def slot_StopRx_def atomic_defs Let_def)

lemma StopTx_eq:
  "DeviceIntrfStopTx ops w = \<lparr>dev = (StopTx ops (dev w))\<lparr>Busy := False\<rparr>, calls = calls w @ [CallStopTx]\<rparr>"
  by (simp add: DeviceIntrfStopTx_def slot_StopTx_def atomic_defs Let_def)

text \<open>
  Claim C2. Whenever \<open>DeviceIntrfStartRx\<close> or \<open>DeviceIntrfStartTx\<close> returns false, the busy
  flag on return equals its value before the call. This covers both ways of failing: the
  flag was already set (it stays set), and the flag was acquired but the implementation's
  start routine failed (the wrapper clears the flag it had set). Nothing is assumed of the
  implementation.
\<close>
theorem start_failure_keeps_busy:
  "(\<not> fst (DeviceIntrfStartRx ops w a) \<longrightarrow>
      Busy (dev (snd (DeviceIntrfStartRx ops w a))) = Busy (dev w)) \<and>
   (\<not> fst (DeviceIntrfStartTx ops w a) \<longrightarrow>
      Busy (dev (snd (DeviceIntrfStartTx ops w a))) = Busy (dev w))"
proof (cases "Busy (dev w)")
  case True
  then show ?thesis by (simp add: StartRx_busy StartTx_busy)
next
  case False
  then show ?thesis by (simp add: StartRx_free StartTx_free Let_def)
qed

text \<open>
  Both failures at concrete handles: a start routine that fails on a free handle, and a
  Start on a handle that is already busy.
\<close>
theorem start_failure_keeps_busy_witness:
  "\<not> fst (DeviceIntrfStartRx nak_transport (init_world ()) 5) \<and>
   Busy (dev (snd (DeviceIntrfStartRx nak_transport (init_world ()) 5))) = Busy (dev (init_world ())) \<and>
   calls (snd (DeviceIntrfStartRx nak_transport (init_world ()) 5)) = [CallStartRx 5] \<and>
   \<not> fst (DeviceIntrfStartTx idle_transport ((init_world ())\<lparr>dev := (dev (init_world ()))\<lparr>Busy := True\<rparr>\<rparr>) 5) \<and>
   Busy (dev (snd (DeviceIntrfStartTx idle_transport ((init_world ())\<lparr>dev := (dev (init_world ()))\<lparr>Busy := True\<rparr>\<rparr>) 5)))"
  using start_failure_keeps_busy [of nak_transport "init_world ()" 5]
    start_failure_keeps_busy [of idle_transport "(init_world ())\<lparr>dev := (dev (init_world ()))\<lparr>Busy := True\<rparr>\<rparr>" 5]
  by (simp add: StartRx_free StartTx_busy nak_transport_def idle_transport_def init_world_def)

text \<open>
  Claim C4. After \<open>DeviceIntrfStartRx\<close> has returned true and \<open>DeviceIntrfStopRx\<close> has
  then been called, the busy flag is false, and a following \<open>DeviceIntrfStartRx\<close> on the
  same handle acquires the flag: it is not turned away for contention but invokes the
  implementation's start routine on the handle with the flag set and returns that
  routine's result. The handle it leaves is the one the routine returned, with the flag
  cleared only if the routine failed. So, for an implementation whose start routines leave
  the busy flag alone, when this Start returns true the flag is held on return and a
  further Start is refused.
\<close>
theorem stop_then_start_again:
  assumes "fst (DeviceIntrfStartRx ops w a)"
  shows "\<not> Busy (dev (DeviceIntrfStopRx ops (snd (DeviceIntrfStartRx ops w a)))) \<and>
         (let w2 = DeviceIntrfStopRx ops (snd (DeviceIntrfStartRx ops w a))
          in calls (snd (DeviceIntrfStartRx ops w2 a')) = calls w2 @ [CallStartRx a'] \<and>
             fst (DeviceIntrfStartRx ops w2 a') = fst (StartRx ops ((dev w2)\<lparr>Busy := True\<rparr>) a') \<and>
             DeviceIntrfStartRx ops w2 a' =
               (fst (StartRx ops ((dev w2)\<lparr>Busy := True\<rparr>) a'),
                \<lparr>dev = (if fst (StartRx ops ((dev w2)\<lparr>Busy := True\<rparr>) a')
                        then snd (StartRx ops ((dev w2)\<lparr>Busy := True\<rparr>) a')
                        else (snd (StartRx ops ((dev w2)\<lparr>Busy := True\<rparr>) a'))\<lparr>Busy := False\<rparr>),
                 calls = calls w2 @ [CallStartRx a']\<rparr>) \<and>
             (start_keeps_busy ops \<and> fst (DeviceIntrfStartRx ops w2 a') \<longrightarrow>
                Busy (dev (snd (DeviceIntrfStartRx ops w2 a')))) \<and>
             (start_keeps_busy ops \<and> fst (DeviceIntrfStartRx ops w2 a') \<longrightarrow>
                DeviceIntrfStartRx ops (snd (DeviceIntrfStartRx ops w2 a')) a'' =
                  (False, snd (DeviceIntrfStartRx ops w2 a'))))"
proof -
  let ?w2 = "DeviceIntrfStopRx ops (snd (DeviceIntrfStartRx ops w a))"
  have free: "\<not> Busy (dev ?w2)" by (simp add: StopRx_eq)
  have eq: "DeviceIntrfStartRx ops ?w2 a' =
               (fst (StartRx ops ((dev ?w2)\<lparr>Busy := True\<rparr>) a'),
                \<lparr>dev = (if fst (StartRx ops ((dev ?w2)\<lparr>Busy := True\<rparr>) a')
                        then snd (StartRx ops ((dev ?w2)\<lparr>Busy := True\<rparr>) a')
                        else (snd (StartRx ops ((dev ?w2)\<lparr>Busy := True\<rparr>) a'))\<lparr>Busy := False\<rparr>),
                 calls = calls ?w2 @ [CallStartRx a']\<rparr>)"
    using StartRx_free [OF free, of ops a'] by (simp add: Let_def)
  have held: "Busy (dev (snd (DeviceIntrfStartRx ops ?w2 a')))"
    if "start_keeps_busy ops \<and> fst (DeviceIntrfStartRx ops ?w2 a')"
  proof -
    from that have k: "\<And>d x. Busy (snd (StartRx ops d x)) = Busy d"
      by (simp add: start_keeps_busy_def)
    from that have "fst (StartRx ops ((dev ?w2)\<lparr>Busy := True\<rparr>) a')" by (simp add: eq)
    then show ?thesis by (simp add: eq k)
  qed
  have refused: "DeviceIntrfStartRx ops (snd (DeviceIntrfStartRx ops ?w2 a')) a'' =
                  (False, snd (DeviceIntrfStartRx ops ?w2 a'))"
    if "start_keeps_busy ops \<and> fst (DeviceIntrfStartRx ops ?w2 a')"
    using held [OF that] by (rule StartRx_busy)
  have c: "calls (snd (DeviceIntrfStartRx ops ?w2 a')) = calls ?w2 @ [CallStartRx a']"
    and r: "fst (DeviceIntrfStartRx ops ?w2 a') = fst (StartRx ops ((dev ?w2)\<lparr>Busy := True\<rparr>) a')"
    by (simp_all add: eq)
  from free c r eq held refused show ?thesis unfolding Let_def by blast
qed

text \<open>
  Start, Stop and Start again on the idle transport: the second Start holds the flag and
  a third is refused.
\<close>
theorem stop_then_start_again_witness:
  "fst (DeviceIntrfStartRx idle_transport (init_world ()) 5) \<and>
   \<not> Busy (dev (DeviceIntrfStopRx idle_transport (snd (DeviceIntrfStartRx idle_transport (init_world ()) 5)))) \<and>
   fst (DeviceIntrfStartRx idle_transport
          (DeviceIntrfStopRx idle_transport (snd (DeviceIntrfStartRx idle_transport (init_world ()) 5))) 6) \<and>
   calls (snd (DeviceIntrfStartRx idle_transport
          (DeviceIntrfStopRx idle_transport (snd (DeviceIntrfStartRx idle_transport (init_world ()) 5))) 6))
     = [CallStartRx 5, CallStopRx, CallStartRx 6] \<and>
   start_keeps_busy idle_transport \<and>
   Busy (dev (snd (DeviceIntrfStartRx idle_transport
          (DeviceIntrfStopRx idle_transport (snd (DeviceIntrfStartRx idle_transport (init_world ()) 5))) 6))) \<and>
   \<not> fst (DeviceIntrfStartRx idle_transport
          (snd (DeviceIntrfStartRx idle_transport
             (DeviceIntrfStopRx idle_transport (snd (DeviceIntrfStartRx idle_transport (init_world ()) 5))) 6)) 7)"
proof -
  have h: "fst (DeviceIntrfStartRx idle_transport (init_world ()) 5)"
    by (simp add: StartRx_free idle_transport_def init_world_def)
  have k: "start_keeps_busy idle_transport"
    by (simp add: start_keeps_busy_def idle_transport_def)
  have s: "fst (DeviceIntrfStartRx idle_transport
          (DeviceIntrfStopRx idle_transport (snd (DeviceIntrfStartRx idle_transport (init_world ()) 5))) 6)"
    by (simp add: StopRx_eq StartRx_free Let_def idle_transport_def init_world_def)
  have c: "calls (snd (DeviceIntrfStartRx idle_transport
          (DeviceIntrfStopRx idle_transport (snd (DeviceIntrfStartRx idle_transport (init_world ()) 5))) 6))
     = [CallStartRx 5, CallStopRx, CallStartRx 6]"
    by (simp add: StopRx_eq StartRx_free Let_def idle_transport_def init_world_def)
  let ?w3 = "snd (DeviceIntrfStartRx idle_transport
          (DeviceIntrfStopRx idle_transport (snd (DeviceIntrfStartRx idle_transport (init_world ()) 5))) 6)"
  note t = stop_then_start_again [OF h, of 6 7, unfolded Let_def]
  from t have f: "\<not> Busy (dev (DeviceIntrfStopRx idle_transport
      (snd (DeviceIntrfStartRx idle_transport (init_world ()) 5))))" by blast
  from t k s have b: "Busy (dev ?w3)" by blast
  from t k s have "DeviceIntrfStartRx idle_transport ?w3 7 = (False, ?w3)" by blast
  then have r: "\<not> fst (DeviceIntrfStartRx idle_transport ?w3 7)" by simp
  from h f s c k b r show ?thesis by blast
qed

text \<open>
  Claim C8. \<open>DeviceIntrfReset\<close> invokes the implementation's reset routine exactly when
  the \<open>Reset\<close> slot is not null; with a null slot nothing at all changes. The wrapper
  neither tests nor writes the busy flag: whatever the flag is, the same slot invocation
  is made, and the handle is left exactly as the reset routine returns it.
\<close>
theorem reset_iff_slot_present:
  "(calls (DeviceIntrfReset ops w) = calls w @ [CallReset]) = (Reset ops \<noteq> None) \<and>
   DeviceIntrfReset ops w =
     (case Reset ops of
        None \<Rightarrow> w
      | Some f \<Rightarrow> \<lparr>dev = f (dev w), calls = calls w @ [CallReset]\<rparr>) \<and>
   calls (DeviceIntrfReset ops (w\<lparr>dev := (dev w)\<lparr>Busy := b\<rparr>\<rparr>)) = calls (DeviceIntrfReset ops w)"
  by (simp add: DeviceIntrfReset_def slot_Reset_def split: option.splits)

text \<open>
  Claim C9. \<open>DeviceIntrfRxData\<close> and \<open>DeviceIntrfTxData\<close> make one call of the
  implementation's \<open>RxData\<close> / \<open>TxData\<close> with the arguments they were given and return
  its result, whatever the count is; the handle after the wrapper is exactly the handle the
  routine left, so the wrapper itself changes no field, the busy flag and the enable count
  included, and its behaviour does not depend on them.
\<close>
theorem data_wrappers_delegate:
  "DeviceIntrfRxData ops w pBuff BuffLen =
     (fst (RxData ops (dev w) pBuff BuffLen),
      \<lparr>dev = snd (RxData ops (dev w) pBuff BuffLen), calls = calls w @ [CallRxData pBuff BuffLen]\<rparr>) \<and>
   DeviceIntrfTxData ops w pData DataLen =
     (fst (TxData ops (dev w) pData DataLen),
      \<lparr>dev = snd (TxData ops (dev w) pData DataLen), calls = calls w @ [CallTxData pData DataLen]\<rparr>)"
  by (simp add: DeviceIntrfRxData_def DeviceIntrfTxData_def slot_RxData_def slot_TxData_def
      split: prod.splits)

text \<open>
  Claim C10. In every state of the handle, \<open>DeviceIntrfStopRx\<close> and \<open>DeviceIntrfStopTx\<close>
  invoke the implementation's stop routine and leave the busy flag false. There is no
  test that a bracket is open: the statement holds whether the flag was set or not, and
  whoever set it.
\<close>
theorem stop_always_clears_busy:
  "DeviceIntrfStopRx ops w =
     \<lparr>dev = (StopRx ops (dev w))\<lparr>Busy := False\<rparr>, calls = calls w @ [CallStopRx]\<rparr> \<and>
   DeviceIntrfStopTx ops w =
     \<lparr>dev = (StopTx ops (dev w))\<lparr>Busy := False\<rparr>, calls = calls w @ [CallStopTx]\<rparr> \<and>
   \<not> Busy (dev (DeviceIntrfStopRx ops w)) \<and> \<not> Busy (dev (DeviceIntrfStopTx ops w))"
  by (simp add: StopRx_eq StopTx_eq)

subsection \<open>Sequences of Start calls\<close>

lemma do_start_busy: "Busy (dev w) \<Longrightarrow> do_start ops w c = (False, w)"
  by (cases c) (simp_all add: StartRx_busy StartTx_busy)

lemma run_starts_busy:
  "Busy (dev w) \<Longrightarrow> run_starts ops w cs = (replicate (length cs) False, w)"
  by (induction cs) (simp_all add: do_start_busy)

lemma do_start_true_busy:
  assumes "start_keeps_busy ops" and "fst (do_start ops w c)"
  shows "Busy (dev (snd (do_start ops w c)))"
proof (cases "Busy (dev w)")
  case True
  with assms(2) show ?thesis by (simp add: do_start_busy)
next
  case False
  from assms(1) have k:
    "\<And>d a. Busy (snd (StartRx ops d a)) = Busy d" "\<And>d a. Busy (snd (StartTx ops d a)) = Busy d"
    by (simp_all add: start_keeps_busy_def)
  from False assms(2) show ?thesis
    by (cases c) (simp_all add: StartRx_free StartTx_free Let_def k split: if_splits)
qed

lemma count_True_replicate_False: "count_list (replicate n False) True = 0"
  by (induction n) simp_all

lemma run_starts_at_most_one:
  assumes "start_keeps_busy ops"
  shows "count_list (fst (run_starts ops w cs)) True \<le> 1"
proof (induction cs arbitrary: w)
  case Nil
  show ?case by simp
next
  case (Cons c cs)
  obtain r w1 where st: "do_start ops w c = (r, w1)" by (cases "do_start ops w c")
  show ?case
  proof (cases r)
    case True
    with st assms have "Busy (dev w1)" using do_start_true_busy [of ops w c] by simp
    then have "run_starts ops w1 cs = (replicate (length cs) False, w1)" by (rule run_starts_busy)
    with st True show ?thesis by (simp add: count_True_replicate_False)
  next
    case False
    with st Cons.IH [of w1] show ?thesis by (auto split: prod.splits)
  qed
qed

lemma do_start_succeeds:
  assumes "start_succeeds ops" and "\<not> Busy (dev w)"
  shows "fst (do_start ops w c)"
proof -
  from assms(1) have k: "\<And>d a. fst (StartRx ops d a)" "\<And>d a. fst (StartTx ops d a)"
    by (simp_all add: start_succeeds_def)
  from assms(2) show ?thesis
    by (cases c) (simp_all add: StartRx_free StartTx_free Let_def k)
qed

lemma run_starts_first_wins:
  assumes "start_keeps_busy ops" and "start_succeeds ops" and "\<not> Busy (dev w)"
  shows "fst (run_starts ops w (c # cs)) = True # replicate (length cs) False"
proof -
  obtain r w1 where st: "do_start ops w c = (r, w1)" by (cases "do_start ops w c")
  from assms(2,3) st have r: "r" using do_start_succeeds [of ops w c] by simp
  with assms(1) st have "Busy (dev w1)" using do_start_true_busy [of ops w c] by simp
  then have "run_starts ops w1 cs = (replicate (length cs) False, w1)" by (rule run_starts_busy)
  with st r show ?thesis by simp
qed

text \<open>
  Claim C1, as amended. A Start call made while the busy flag is set returns false, invokes
  no slot and leaves the handle as it was. Hence, for an implementation whose start
  routines leave the busy flag alone, of any N Start calls with no Stop in between at most
  one returns true. Exactly one returns true, namely the first, when moreover the flag is
  clear at the beginning, there is at least one call, and the implementation's start
  routine succeeds. A refused call changes nothing, so it makes no difference whether it
  comes after the call that holds the flag or interrupts it.
\<close>
theorem start_mutual_exclusion:
  "(Busy (dev w) \<longrightarrow> do_start ops w c = (False, w)) \<and>
   (start_keeps_busy ops \<longrightarrow> count_list (fst (run_starts ops w cs)) True \<le> 1) \<and>
   (start_keeps_busy ops \<and> start_succeeds ops \<and> \<not> Busy (dev w) \<and> cs \<noteq> [] \<longrightarrow>
      fst (run_starts ops w cs) = True # replicate (length cs - 1) False)"
proof (intro conjI impI)
  assume "Busy (dev w)"
  then show "do_start ops w c = (False, w)" by (rule do_start_busy)
next
  assume "start_keeps_busy ops"
  then show "count_list (fst (run_starts ops w cs)) True \<le> 1" by (rule run_starts_at_most_one)
next
  assume a: "start_keeps_busy ops \<and> start_succeeds ops \<and> \<not> Busy (dev w) \<and> cs \<noteq> []"
  then obtain c' cs' where cs: "cs = c' # cs'" by (cases cs) auto
  from a show "fst (run_starts ops w cs) = True # replicate (length cs - 1) False"
    unfolding cs using run_starts_first_wins [of ops w c' cs'] by simp
qed

lemma idle_keeps_busy: "start_keeps_busy idle_transport"
  by (simp add: start_keeps_busy_def idle_transport_def)

lemma idle_succeeds: "start_succeeds idle_transport"
  by (simp add: start_succeeds_def idle_transport_def)

text \<open>
  Claim C1 as stated fails: when the implementation's start routine fails, each Start
  acquires the flag, fails and releases it, and none of the N calls returns true.
\<close>
theorem start_exactly_one_counterexample:
  "fst (run_starts nak_transport (init_world ()) [StartRxCall 5, StartTxCall 5, StartRxCall 5])
     = [False, False, False]"
  by (simp add: StartRx_free StartTx_free Let_def nak_transport_def idle_transport_def init_world_def)

text \<open>Three Start calls on the idle transport: the first wins, the others are refused.\<close>
theorem start_mutual_exclusion_witness:
  "Busy (dev (snd (DeviceIntrfStartRx idle_transport (init_world ()) 5))) \<and>
   do_start idle_transport (snd (DeviceIntrfStartRx idle_transport (init_world ()) 5)) (StartTxCall 6)
     = (False, snd (DeviceIntrfStartRx idle_transport (init_world ()) 5)) \<and>
   start_keeps_busy idle_transport \<and> start_succeeds idle_transport \<and>
   \<not> Busy (dev (init_world ())) \<and>
   fst (run_starts idle_transport (init_world ()) [StartRxCall 5, StartTxCall 6, StartRxCall 7])
     = [True, False, False] \<and>
   count_list (fst (run_starts idle_transport (init_world ()) [StartRxCall 5, StartTxCall 6, StartRxCall 7])) True \<le> 1"
proof -
  have b: "Busy (dev (snd (DeviceIntrfStartRx idle_transport (init_world ()) 5)))"
    by (simp add: StartRx_free Let_def idle_transport_def init_world_def)
  have f: "\<not> Busy (dev (init_world ()))" by (simp add: init_world_def)
  from b f idle_keeps_busy idle_succeeds
    start_mutual_exclusion [of "snd (DeviceIntrfStartRx idle_transport (init_world ()) 5)"
      idle_transport "StartTxCall 6" "[]"]
    start_mutual_exclusion [of "init_world ()" idle_transport "StartTxCall 6"
      "[StartRxCall 5, StartTxCall 6, StartRxCall 7]"]
  show ?thesis by simp
qed

section \<open>The enable count\<close>

lemma sint_wi:
  "- (2 ^ 31) \<le> z \<Longrightarrow> z < 2 ^ 31 \<Longrightarrow> sint (word_of_int z :: c_int) = z"
  by (simp add: signed_of_int signed_take_bit_int_eq_self)

lemma wi_eq_1:
  assumes "- (2 ^ 31) \<le> z" and "z < 2 ^ 31"
  shows "(word_of_int z = (1 :: c_int)) = (z = 1)"
proof
  assume "word_of_int z = (1 :: c_int)"
  then have "sint (word_of_int z :: c_int) = sint (1 :: c_int)" by simp
  with assms show "z = 1" by (simp add: sint_wi)
next
  assume "z = 1"
  then show "word_of_int z = (1 :: c_int)" by simp
qed

lemma Enable_step:
  assumes "EnCnt (dev w) = word_of_int z" and "- (2 ^ 31) \<le> z + 1" and "z + 1 < 2 ^ 31"
  shows "DeviceIntrfEnable ops w =
    (if z = 0
     then \<lparr>dev = Enable ops ((dev w)\<lparr>EnCnt := 1\<rparr>), calls = calls w @ [CallEnable]\<rparr>
     else w\<lparr>dev := (dev w)\<lparr>EnCnt := word_of_int (z + 1)\<rparr>\<rparr>)"
proof -
  have e: "EnCnt (dev w) + 1 = word_of_int (z + 1)" using assms(1) by simp
  have "(word_of_int (z + 1) = (1 :: c_int)) = (z = 0)"
    using wi_eq_1 [OF assms(2,3)] by simp
  then show ?thesis
    unfolding DeviceIntrfEnable_def AtomicInc_def e
    by (auto simp add: slot_Enable_def Let_def)
qed

lemma Disable_step:
  assumes "EnCnt (dev w) = word_of_int z" and "- (2 ^ 31) \<le> z - 1" and "z - 1 < 2 ^ 31"
  shows "DeviceIntrfDisable ops w =
    (if z \<le> 1
     then \<lparr>dev = Disable ops ((dev w)\<lparr>EnCnt := word_of_int (z - 1)\<rparr>),
           calls = calls w @ [CallDisable]\<rparr>
     else w\<lparr>dev := (dev w)\<lparr>EnCnt := word_of_int (z - 1)\<rparr>\<rparr>)"
proof -
  have e: "EnCnt (dev w) - 1 = word_of_int (z - 1)" using assms(1) by simp
  have "(sint (word_of_int (z - 1) :: c_int) < 1) = (z \<le> 1)"
    using sint_wi [OF assms(2,3)] by auto
  then show ?thesis
    unfolding DeviceIntrfDisable_def AtomicDec_def e
    by (auto simp add: slot_Disable_def Let_def)
qed

lemma powered_snoc:
  "powered p (cs @ [CallEnable]) = True" "powered p (cs @ [CallDisable]) = False"
  by (induction p cs rule: powered.induct) simp_all

lemma hw_enabled_snoc:
  "hw_enabled (cs @ [CallEnable])" "\<not> hw_enabled (cs @ [CallDisable])"
  by (simp_all add: hw_enabled_def powered_snoc)

lemma balance_simps:
  "balance [] = 0" "balance (EnableCall # cs) = balance cs + 1"
  "balance (DisableCall # cs) = balance cs - 1"
  by (simp_all add: balance_def)

lemma do_power_inv:
  assumes k: "power_keeps_count ops"
    and c: "EnCnt (dev w) = word_of_int z"
    and h: "hw_enabled (calls w) = (0 < z)"
    and b: "- (2 ^ 31) < z" "z + 1 < 2 ^ 31"
  shows "EnCnt (dev (do_power ops w c)) = word_of_int (z + balance [c]) \<and>
         hw_enabled (calls (do_power ops w c)) = (0 < z + balance [c])"
proof -
  from k have kk: "\<And>d. EnCnt (Enable ops d) = EnCnt d" "\<And>d. EnCnt (Disable ops d) = EnCnt d"
    by (simp_all add: power_keeps_count_def)
  show ?thesis
  proof (cases c)
    case EnableCall
    have "DeviceIntrfEnable ops w =
      (if z = 0
       then \<lparr>dev = Enable ops ((dev w)\<lparr>EnCnt := 1\<rparr>), calls = calls w @ [CallEnable]\<rparr>
       else w\<lparr>dev := (dev w)\<lparr>EnCnt := word_of_int (z + 1)\<rparr>\<rparr>)"
      using c b by (intro Enable_step) simp_all
    with EnableCall h show ?thesis
      by (auto simp add: balance_simps kk hw_enabled_snoc)
  next
    case DisableCall
    have "DeviceIntrfDisable ops w =
      (if z \<le> 1
       then \<lparr>dev = Disable ops ((dev w)\<lparr>EnCnt := word_of_int (z - 1)\<rparr>),
             calls = calls w @ [CallDisable]\<rparr>
       else w\<lparr>dev := (dev w)\<lparr>EnCnt := word_of_int (z - 1)\<rparr>\<rparr>)"
      using c b by (intro Disable_step) simp_all
    with DisableCall h show ?thesis
      by (auto simp add: balance_simps kk hw_enabled_snoc)
  qed
qed

lemma balance_Cons: "balance (c # cs) = balance [c] + balance cs"
  by (cases c) (simp_all add: balance_simps)

lemma balance_single_bound: "\<bar>balance [c]\<bar> \<le> 1"
  by (cases c) (simp_all add: balance_simps)

lemma run_power_inv:
  assumes k: "power_keeps_count ops"
  shows "EnCnt (dev w) = word_of_int z \<Longrightarrow> hw_enabled (calls w) = (0 < z) \<Longrightarrow>
         \<bar>z\<bar> + int (length cs) < 2 ^ 31 \<Longrightarrow>
         EnCnt (dev (run_power ops w cs)) = word_of_int (z + balance cs) \<and>
         hw_enabled (calls (run_power ops w cs)) = (0 < z + balance cs) \<and>
         \<bar>z + balance cs\<bar> \<le> \<bar>z\<bar> + int (length cs)"
proof (induction cs arbitrary: w z)
  case Nil
  then show ?case by (simp add: run_power_def balance_simps)
next
  case (Cons c cs)
  let ?w = "do_power ops w c" and ?z = "z + balance [c]"
  have s: "EnCnt (dev ?w) = word_of_int ?z \<and> hw_enabled (calls ?w) = (0 < ?z)"
    using k Cons.prems by (intro do_power_inv) auto
  have bs: "\<bar>?z\<bar> \<le> \<bar>z\<bar> + 1" using balance_single_bound [of c] by linarith
  with Cons.prems(3) have "\<bar>?z\<bar> + int (length cs) < 2 ^ 31" by simp
  with s Cons.IH [of ?w ?z]
  have A: "EnCnt (dev (run_power ops ?w cs)) = word_of_int (?z + balance cs)"
    and B: "hw_enabled (calls (run_power ops ?w cs)) = (0 < ?z + balance cs)"
    and C: "\<bar>?z + balance cs\<bar> \<le> \<bar>?z\<bar> + int (length cs)" by simp_all
  have r: "run_power ops w (c # cs) = run_power ops ?w cs" by (simp add: run_power_def)
  have e: "z + balance (c # cs) = ?z + balance cs" using balance_Cons [of c cs] by simp
  have "\<bar>?z + balance cs\<bar> \<le> \<bar>z\<bar> + int (length (c # cs))" using C bs by simp
  with A B show ?case by (simp only: r e)
qed

text \<open>
  Claim C5, as amended. Take a handle in its initial state (count 0, hardware off), an
  implementation whose power routines leave the count alone, and any sequence of fewer
  than \<open>2^31\<close> Enable and Disable calls. After every prefix of the sequence the count is
  the number of Enable calls less the number of Disable calls made so far, and the
  hardware is enabled if and only if the count is positive. So the count is at least 0
  exactly as long as Disable has not been called more often than Enable; \<open>DeviceIntrfDisable\<close>
  has no guard, and a Disable at count 0 takes the count to -1.
\<close>
theorem enable_count_tracks_power:
  assumes "power_keeps_count ops" and "EnCnt (dev w) = 0" and "\<not> hw_enabled (calls w)"
    and "length cs < 2 ^ 31"
  shows "sint (EnCnt (dev (run_power ops w (take n cs)))) =
           int (count_list (take n cs) EnableCall) - int (count_list (take n cs) DisableCall) \<and>
         hw_enabled (calls (run_power ops w (take n cs))) =
           (0 < sint (EnCnt (dev (run_power ops w (take n cs))))) \<and>
         (0 \<le> sint (EnCnt (dev (run_power ops w (take n cs))))) =
           (count_list (take n cs) DisableCall \<le> count_list (take n cs) EnableCall)"
proof -
  let ?p = "take n cs"
  have l: "\<bar>0::int\<bar> + int (length ?p) < 2 ^ 31" using assms(4) by simp
  have i: "EnCnt (dev (run_power ops w ?p)) = word_of_int (0 + balance ?p) \<and>
        hw_enabled (calls (run_power ops w ?p)) = (0 < 0 + balance ?p) \<and>
        \<bar>0 + balance ?p\<bar> \<le> \<bar>0\<bar> + int (length ?p)"
    using assms(2,3) l by (intro run_power_inv [OF assms(1)]) simp_all
  then have "- (2 ^ 31) \<le> balance ?p" "balance ?p < 2 ^ 31" using l by linarith+
  then have "sint (word_of_int (balance ?p) :: c_int) = balance ?p" by (rule sint_wi)
  with i show ?thesis by (auto simp add: balance_def)
qed

lemma idle_keeps_count: "power_keeps_count idle_transport"
  by (simp add: power_keeps_count_def idle_transport_def)

text \<open>
  Claim C5 as stated fails: one Disable on the initial handle leaves the count at -1.
\<close>
theorem enable_count_negative_counterexample:
  "sint (EnCnt (dev (run_power idle_transport (init_world ()) [DisableCall]))) = - 1"
  by (simp add: run_power_def DeviceIntrfDisable_def AtomicDec_def slot_Disable_def
      idle_transport_def init_world_def)

text \<open>Two Enable calls and two Disable calls, looked at after three and after four calls.\<close>
theorem enable_count_tracks_power_witness:
  "power_keeps_count idle_transport \<and> EnCnt (dev (init_world ())) = 0 \<and>
   \<not> hw_enabled (calls (init_world ())) \<and>
   sint (EnCnt (dev (run_power idle_transport (init_world ())
     (take 3 [EnableCall, EnableCall, DisableCall, DisableCall])))) = 1 \<and>
   hw_enabled (calls (run_power idle_transport (init_world ())
     (take 3 [EnableCall, EnableCall, DisableCall, DisableCall]))) \<and>
   sint (EnCnt (dev (run_power idle_transport (init_world ())
     (take 4 [EnableCall, EnableCall, DisableCall, DisableCall])))) = 0 \<and>
   \<not> hw_enabled (calls (run_power idle_transport (init_world ())
     (take 4 [EnableCall, EnableCall, DisableCall, DisableCall])))"
proof -
  have c: "EnCnt (dev (init_world ())) = 0" and h: "\<not> hw_enabled (calls (init_world ()))"
    by (simp_all add: init_world_def hw_enabled_def)
  have l: "length [EnableCall, EnableCall, DisableCall, DisableCall] < 2 ^ 31" by simp
  from enable_count_tracks_power [OF idle_keeps_count c h l, of 3]
    enable_count_tracks_power [OF idle_keeps_count c h l, of 4]
    idle_keeps_count c h
  show ?thesis by simp
qed







section \<open>The composite transfers\<close>

lemma new_calls_append: "calls w' = calls w @ xs \<Longrightarrow> new_calls w w' = xs"
  by (simp add: new_calls_def)

lemma new_calls_self: "new_calls w w = []"
  by (simp add: new_calls_def)

lemma RxData_eq:
  "DeviceIntrfRxData ops w pBuff BuffLen =
     (fst (RxData ops (dev w) pBuff BuffLen),
      \<lparr>dev = snd (RxData ops (dev w) pBuff BuffLen), calls = calls w @ [CallRxData pBuff BuffLen]\<rparr>)"
  by (simp add: DeviceIntrfRxData_def slot_RxData_def split: prod.splits)

lemma TxData_eq:
  "DeviceIntrfTxData ops w pData DataLen =
     (fst (TxData ops (dev w) pData DataLen),
      \<lparr>dev = snd (TxData ops (dev w) pData DataLen), calls = calls w @ [CallTxData pData DataLen]\<rparr>)"
  by (simp add: DeviceIntrfTxData_def slot_TxData_def split: prod.splits)

lemma StartTx_ok_calls:
  assumes "fst (DeviceIntrfStartTx ops w a)"
  shows "calls (snd (DeviceIntrfStartTx ops w a)) = calls w @ [CallStartTx a]"
proof (cases "Busy (dev w)")
  case True
  with assms show ?thesis by (simp add: StartTx_busy)
next
  case False
  then show ?thesis by (simp add: StartTx_free Let_def)
qed

lemma StartRx_ok_calls:
  assumes "fst (DeviceIntrfStartRx ops w a)"
  shows "calls (snd (DeviceIntrfStartRx ops w a)) = calls w @ [CallStartRx a]"
proof (cases "Busy (dev w)")
  case True
  with assms show ?thesis by (simp add: StartRx_busy)
next
  case False
  then show ?thesis by (simp add: StartRx_free Let_def)
qed

lemma StartTx_fail_calls:
  "set (new_calls w (snd (DeviceIntrfStartTx ops w a))) \<subseteq> {CallStartTx a}"
proof (cases "Busy (dev w)")
  case True
  then show ?thesis by (simp add: StartTx_busy new_calls_self)
next
  case False
  then show ?thesis by (simp add: StartTx_free Let_def new_calls_def)
qed

lemma StartRx_fail_calls:
  "set (new_calls w (snd (DeviceIntrfStartRx ops w a))) \<subseteq> {CallStartRx a}"
proof (cases "Busy (dev w)")
  case True
  then show ?thesis by (simp add: StartRx_busy new_calls_self)
next
  case False
  then show ?thesis by (simp add: StartRx_free Let_def new_calls_def)
qed

lemma Write_ok:
  assumes "fst (DeviceIntrfStartTx ops w a)"
  shows "new_calls w (snd (DeviceIntrfWrite ops w a ad adl data len)) =
           [CallStartTx a, CallTxData ad adl, CallTxData data len, CallStopTx]"
  using assms StartTx_ok_calls [OF assms]
  by (intro new_calls_append)
     (simp add: DeviceIntrfWrite_def TxData_eq StopTx_eq Let_def case_prod_beta)

lemma Read_ok:
  assumes "fst (DeviceIntrfStartTx ops w a)"
  shows "new_calls w (snd (DeviceIntrfRead ops w a ad adl buf len)) =
           [CallStartTx a, CallTxData ad adl, CallRxData buf len, CallStopRx]"
  using assms StartTx_ok_calls [OF assms]
  by (intro new_calls_append)
     (simp add: DeviceIntrfRead_def TxData_eq RxData_eq StopRx_eq Let_def case_prod_beta)

lemma Tx_ok:
  assumes "fst (DeviceIntrfStartTx ops w a)"
  shows "new_calls w (snd (DeviceIntrfTx ops w a data len)) =
           [CallStartTx a, CallTxData data len, CallStopTx]"
  using assms StartTx_ok_calls [OF assms]
  by (intro new_calls_append)
     (simp add: DeviceIntrfTx_def TxData_eq StopTx_eq Let_def case_prod_beta)

lemma Rx_ok:
  assumes "fst (DeviceIntrfStartRx ops w a)"
  shows "new_calls w (snd (DeviceIntrfRx ops w a buf len)) =
           [CallStartRx a, CallRxData buf len, CallStopRx]"
  using assms StartRx_ok_calls [OF assms]
  by (intro new_calls_append)
     (simp add: DeviceIntrfRx_def RxData_eq StopRx_eq Let_def case_prod_beta)

lemma composite_tx_fail:
  "\<not> fst (DeviceIntrfStartTx ops w a) \<Longrightarrow>
     DeviceIntrfWrite ops w a ad adl data len = (0, snd (DeviceIntrfStartTx ops w a)) \<and>
     DeviceIntrfRead ops w a ad adl buf len = ((0, buf), snd (DeviceIntrfStartTx ops w a)) \<and>
     DeviceIntrfTx ops w a data len = (0, snd (DeviceIntrfStartTx ops w a))"
  by (simp add: DeviceIntrfWrite_def DeviceIntrfRead_def DeviceIntrfTx_def case_prod_beta)

lemma composite_rx_fail:
  "\<not> fst (DeviceIntrfStartRx ops w a) \<Longrightarrow>
     DeviceIntrfRx ops w a buf len = ((0, buf), snd (DeviceIntrfStartRx ops w a))"
  by (simp add: DeviceIntrfRx_def case_prod_beta)

lemma no_phase_in_start:
  "set xs \<subseteq> {CallStartTx a} \<Longrightarrow> filter is_transfer xs = [] \<and> filter is_stop xs = []"
  "set xs \<subseteq> {CallStartRx a} \<Longrightarrow> filter is_transfer xs = [] \<and> filter is_stop xs = []"
  by (induction xs) auto

text \<open>
  Claim C6, as amended. When the initial Start succeeds, \<open>DeviceIntrfWrite\<close> invokes
  exactly two transfer phases, the address/command phase and then the data phase, and so
  does \<open>DeviceIntrfRead\<close> (a send of the address/command, then the receive), while
  \<open>DeviceIntrfTx\<close> and \<open>DeviceIntrfRx\<close> invoke exactly one data phase; each closes with
  one stop phase. When the Start fails, each of the four invokes no transfer phase and no
  stop phase, returns 0, and leaves the handle as the failed Start left it.
\<close>
theorem composite_phases:
  "(fst (DeviceIntrfStartTx ops w a) \<longrightarrow>
      new_calls w (snd (DeviceIntrfWrite ops w a ad adl data len)) =
        [CallStartTx a, CallTxData ad adl, CallTxData data len, CallStopTx] \<and>
      new_calls w (snd (DeviceIntrfRead ops w a ad adl buf len)) =
        [CallStartTx a, CallTxData ad adl, CallRxData buf len, CallStopRx] \<and>
      new_calls w (snd (DeviceIntrfTx ops w a data len)) =
        [CallStartTx a, CallTxData data len, CallStopTx]) \<and>
   (fst (DeviceIntrfStartRx ops w a) \<longrightarrow>
      new_calls w (snd (DeviceIntrfRx ops w a buf len)) =
        [CallStartRx a, CallRxData buf len, CallStopRx]) \<and>
   (\<not> fst (DeviceIntrfStartTx ops w a) \<longrightarrow>
      DeviceIntrfWrite ops w a ad adl data len = (0, snd (DeviceIntrfStartTx ops w a)) \<and>
      DeviceIntrfRead ops w a ad adl buf len = ((0, buf), snd (DeviceIntrfStartTx ops w a)) \<and>
      DeviceIntrfTx ops w a data len = (0, snd (DeviceIntrfStartTx ops w a)) \<and>
      filter is_transfer (new_calls w (snd (DeviceIntrfStartTx ops w a))) = [] \<and>
      filter is_stop (new_calls w (snd (DeviceIntrfStartTx ops w a))) = []) \<and>
   (\<not> fst (DeviceIntrfStartRx ops w a) \<longrightarrow>
      DeviceIntrfRx ops w a buf len = ((0, buf), snd (DeviceIntrfStartRx ops w a)) \<and>
      filter is_transfer (new_calls w (snd (DeviceIntrfStartRx ops w a))) = [] \<and>
      filter is_stop (new_calls w (snd (DeviceIntrfStartRx ops w a))) = [])"
  using Write_ok [of ops w a ad adl data len] Read_ok [of ops w a ad adl buf len]
    Tx_ok [of ops w a data len] Rx_ok [of ops w a buf len]
    composite_tx_fail [of ops w a ad adl data len buf] composite_rx_fail [of ops w a buf len]
    no_phase_in_start(1) [OF StartTx_fail_calls [of w ops a]]
    no_phase_in_start(2) [OF StartRx_fail_calls [of w ops a]]
  by blast

text \<open>
  Claim C6 as stated fails for \<open>DeviceIntrfTx\<close> (and \<open>DeviceIntrfRx\<close>): they have no
  address/command to send, and a successful call makes one transfer, not two.
\<close>
theorem composite_tx_two_phases_counterexample:
  "fst (DeviceIntrfStartTx idle_transport (init_world ()) 5) \<and>
   filter is_transfer (new_calls (init_world ())
     (snd (DeviceIntrfTx idle_transport (init_world ()) 5 [1, 2, 3] 3))) = [CallTxData [1, 2, 3] 3]"
  by (simp add: DeviceIntrfTx_def StartTx_free TxData_eq StopTx_eq Let_def new_calls_def
      idle_transport_def init_world_def)

text \<open>A Write that starts on the idle transport, and one that does not on the silent one.\<close>
theorem composite_phases_witness:
  "fst (DeviceIntrfStartTx idle_transport (init_world ()) 5) \<and>
   filter is_transfer (new_calls (init_world ())
     (snd (DeviceIntrfWrite idle_transport (init_world ()) 5 [7] 1 [1, 2, 3] 3)))
     = [CallTxData [7] 1, CallTxData [1, 2, 3] 3] \<and>
   \<not> fst (DeviceIntrfStartTx nak_transport (init_world ()) 5) \<and>
   DeviceIntrfWrite nak_transport (init_world ()) 5 [7] 1 [1, 2, 3] 3
     = (0, snd (DeviceIntrfStartTx nak_transport (init_world ()) 5)) \<and>
   filter is_stop (new_calls (init_world ()) (snd (DeviceIntrfStartTx nak_transport (init_world ()) 5))) = []"
proof -
  have ok: "fst (DeviceIntrfStartTx idle_transport (init_world ()) 5)"
    by (simp add: StartTx_free idle_transport_def init_world_def)
  have ko: "\<not> fst (DeviceIntrfStartTx nak_transport (init_world ()) 5)"
    by (simp add: StartTx_free nak_transport_def idle_transport_def init_world_def)
  from ok ko
    composite_phases [of idle_transport "init_world ()" 5 "[7]" 1 "[1, 2, 3]" 3 "[]" ]
    composite_phases [of nak_transport "init_world ()" 5 "[7]" 1 "[1, 2, 3]" 3 "[]"]
  show ?thesis by simp
qed

section \<open>Rate negotiation\<close>

lemma nearest_rate_in: "nearest_rate best rs req \<in> set (best # rs)"
  by (induction rs arbitrary: best) (auto split: if_splits)

lemma nearest_rate_le_best:
  "\<bar>sint (nearest_rate best rs req) - sint req\<bar> \<le> \<bar>sint best - sint req\<bar>"
proof (induction rs arbitrary: best)
  case Nil
  show ?case by simp
next
  case (Cons r rs)
  show ?case
    using Cons.IH [of r] Cons.IH [of best] by (simp split: if_splits)
qed

lemma nearest_rate_min:
  "r \<in> set (best # rs) \<Longrightarrow>
   \<bar>sint (nearest_rate best rs req) - sint req\<bar> \<le> \<bar>sint r - sint req\<bar>"
proof (induction rs arbitrary: best)
  case Nil
  then show ?case by simp
next
  case (Cons x xs)
  let ?b = "if \<bar>sint x - sint req\<bar> < \<bar>sint best - sint req\<bar> then x else best"
  have step: "nearest_rate best (x # xs) req = nearest_rate ?b xs req" by simp
  have lb: "\<bar>sint (nearest_rate ?b xs req) - sint req\<bar> \<le> \<bar>sint ?b - sint req\<bar>"
    by (rule nearest_rate_le_best)
  from Cons.prems consider "r = best" | "r = x" | "r \<in> set xs" by auto
  then show ?case
  proof cases
    case 1
    with lb show ?thesis unfolding step by (simp split: if_splits)
  next
    case 2
    with lb show ?thesis unfolding step by (simp split: if_splits)
  next
    case 3
    then have "r \<in> set (?b # xs)" by simp
    then show ?thesis unfolding step by (rule Cons.IH)
  qed
qed

lemma sint_dist_0: "\<bar>sint (x :: c_int) - sint y\<bar> \<le> 0 \<Longrightarrow> x = y"
  by (simp add: signed_word_eqI)

text \<open>
  Claim C7. On every handle whose rate slots behave as the spec describes (with at
  least one achievable rate) and for every requested rate, \<open>DeviceIntrfSetRate\<close> returns
  what the implementation's \<open>SetRate\<close> returns: an achievable rate, none of the
  achievable rates being nearer to the request, and equal to the request only when the
  request is itself achievable. It is the rate in force afterwards, and
  \<open>DeviceIntrfGetRate\<close>, called once or again with no SetRate in between, returns
  exactly it.
\<close>
theorem rate_round_trip:
  assumes "SetRate ops = impl_SetRate" and "GetRate ops = impl_GetRate"
    and "achievable (pDevData (dev w)) \<noteq> []"
  shows
    "fst (DeviceIntrfSetRate ops w req) = fst (SetRate ops (dev w) req) \<and>
     fst (DeviceIntrfSetRate ops w req) \<in> set (achievable (pDevData (dev w))) \<and>
     (\<forall>r \<in> set (achievable (pDevData (dev w))).
        \<bar>sint (fst (DeviceIntrfSetRate ops w req)) - sint req\<bar> \<le> \<bar>sint r - sint req\<bar>) \<and>
     (fst (DeviceIntrfSetRate ops w req) = req) = (req \<in> set (achievable (pDevData (dev w)))) \<and>
     current (pDevData (dev (snd (DeviceIntrfSetRate ops w req)))) = fst (DeviceIntrfSetRate ops w req) \<and>
     fst (DeviceIntrfGetRate ops (snd (DeviceIntrfSetRate ops w req))) =
       fst (DeviceIntrfSetRate ops w req) \<and>
     fst (DeviceIntrfGetRate ops
            (snd (DeviceIntrfGetRate ops (snd (DeviceIntrfSetRate ops w req))))) =
       fst (DeviceIntrfSetRate ops w req)"
proof -
  from assms(3) obtain r0 rs where a: "achievable (pDevData (dev w)) = r0 # rs"
    by (cases "achievable (pDevData (dev w))") auto
  let ?R = "nearest_rate r0 rs req"
  have s: "DeviceIntrfSetRate ops w req =
      (?R, \<lparr>dev = (dev w)\<lparr>pDevData := (pDevData (dev w))\<lparr>current := ?R\<rparr>\<rparr>,
            calls = calls w @ [CallSetRate req]\<rparr>)"
    by (simp add: DeviceIntrfSetRate_def slot_SetRate_def assms(1) impl_SetRate_def a Let_def)
  have g: "\<And>v. DeviceIntrfGetRate ops v =
      (current (pDevData (dev v)), \<lparr>dev = dev v, calls = calls v @ [CallGetRate]\<rparr>)"
    by (simp add: DeviceIntrfGetRate_def slot_GetRate_def assms(2) impl_GetRate_def)
  have 1: "?R \<in> set (r0 # rs)" by (rule nearest_rate_in)
  have 2: "\<forall>r \<in> set (r0 # rs). \<bar>sint ?R - sint req\<bar> \<le> \<bar>sint r - sint req\<bar>"
    using nearest_rate_min by blast
  have 3: "(?R = req) = (req \<in> set (r0 # rs))"
  proof
    assume "?R = req" with 1 show "req \<in> set (r0 # rs)" by simp
  next
    assume "req \<in> set (r0 # rs)"
    with 2 have "\<bar>sint ?R - sint req\<bar> \<le> \<bar>sint req - sint req\<bar>" by blast
    then show "?R = req" by (intro sint_dist_0) simp
  qed
  have 0: "fst (DeviceIntrfSetRate ops w req) = fst (SetRate ops (dev w) req)"
    by (simp add: DeviceIntrfSetRate_def slot_SetRate_def case_prod_beta)
  from 1 2 3 show ?thesis unfolding 0 [symmetric] unfolding s g a by simp
qed

text \<open>A request of 100 on a transport that can do 100000 and 400000.\<close>
theorem rate_round_trip_witness:
  "achievable (pDevData (dev (init_world \<lparr>achievable = [100000, 400000], current = 0\<rparr>))) \<noteq> [] \<and>
   fst (DeviceIntrfSetRate rate_transport
          (init_world \<lparr>achievable = [100000, 400000], current = 0\<rparr>) 100) = 100000 \<and>
   fst (DeviceIntrfGetRate rate_transport
          (snd (DeviceIntrfSetRate rate_transport
             (init_world \<lparr>achievable = [100000, 400000], current = 0\<rparr>) 100))) = 100000"
proof -
  have s: "SetRate rate_transport = impl_SetRate" and g: "GetRate rate_transport = impl_GetRate"
    by (simp_all add: rate_transport_def)
  have a: "achievable (pDevData (dev (init_world \<lparr>achievable = [100000, 400000], current = 0\<rparr>))) \<noteq> []"
    by (simp add: init_world_def)
  have v: "fst (DeviceIntrfSetRate rate_transport
          (init_world \<lparr>achievable = [100000, 400000], current = 0\<rparr>) 100) = 100000"
    by (simp add: DeviceIntrfSetRate_def slot_SetRate_def s impl_SetRate_def init_world_def)
  from a v rate_round_trip [OF s g a, of 100] show ?thesis by simp
qed

section \<open>Examples\<close>

text \<open>
  The short transfer of the spec's scenario: StartTx succeeds, the data call sends 10 of
  the 16 bytes asked for, StopTx is invoked, and the caller sees the count 10.
\<close>

lemma short_transfer_example:
  "DeviceIntrfTx short_transport (init_world ()) 5 (replicate 16 0) 16 =
     (10, \<lparr>dev = dev (init_world ()),
           calls = [CallStartTx 5, CallTxData (replicate 16 0) 16, CallStopTx]\<rparr>)"
  by (simp add: DeviceIntrfTx_def StartTx_free TxData_eq StopTx_eq Let_def
      short_transport_def idle_transport_def init_world_def)

text \<open>
  A Stop from a caller that holds no bracket: the handle is busy for a transmission, a
  stray \<open>DeviceIntrfStopRx\<close> clears the flag, and a second Start is let in while the first
  bracket is still open.
\<close>

lemma stray_stop_example:
  "Busy (dev (snd (DeviceIntrfStartTx idle_transport (init_world ()) 5))) \<and>
   fst (DeviceIntrfStartTx idle_transport
          (DeviceIntrfStopRx idle_transport
             (snd (DeviceIntrfStartTx idle_transport (init_world ()) 5))) 6)"
  by (simp add: StartTx_free StopRx_eq Let_def idle_transport_def init_world_def)

text \<open>Reset with and without a reset routine, on a busy handle.\<close>

lemma reset_example:
  "calls (DeviceIntrfReset short_transport (snd (DeviceIntrfStartRx short_transport (init_world ()) 5)))
     = [CallStartRx 5, CallReset] \<and>
   DeviceIntrfReset idle_transport (snd (DeviceIntrfStartRx idle_transport (init_world ()) 5))
     = snd (DeviceIntrfStartRx idle_transport (init_world ()) 5)"
  by (simp add: DeviceIntrfReset_def slot_Reset_def StartRx_free Let_def
      short_transport_def idle_transport_def init_world_def)

end
